theory Spec2Isabelle
  imports Main "HOL-Library.Word" "HOL-Library.Sublist"
begin

section \<open>Data model\<close>

text \<open>
  The converter \<^verbatim>\<open>convert_binary_tests_to_json.py\<close> reads a capture file as Python
  \<^verbatim>\<open>bytes\<close> and builds Python dictionaries that \<^verbatim>\<open>json.dump\<close> writes out.
  A byte is an 8-bit word, a \<^verbatim>\<open>bytes\<close> object a list of them. Python integers are
  unbounded and are modelled as \<open>int\<close>. A dictionary is an association list in insertion
  order (the order \<^verbatim>\<open>json.dump\<close> emits); its values are the JSON scalars the converter
  stores. \<open>JStr\<close> holds the ASCII strings the converter builds itself (family names,
  addresses, base64 and hex text); \<open>JText\<close> holds a decoded Python \<^verbatim>\<open>str\<close> as its list
  of Unicode code points, since a code point need not fit one \<open>char\<close>.
\<close>

type_synonym byte = "8 word"

datatype jvalue = JNone | JBool bool | JInt int | JStr string | JText "nat list"

type_synonym pydict = "(string \<times> jvalue) list"

text \<open>
  The exceptions the library calls of the converter can raise: \<^verbatim>\<open>struct.error\<close> from
  \<^verbatim>\<open>struct.unpack\<close> on a buffer of the wrong length, \<^verbatim>\<open>OSError\<close> from
  \<^verbatim>\<open>socket.inet_ntoa\<close>, \<^verbatim>\<open>ValueError\<close> from \<^verbatim>\<open>socket.inet_ntop\<close> and
  \<^verbatim>\<open>UnicodeDecodeError\<close> from \<^verbatim>\<open>bytes.decode\<close>.
\<close>

datatype error = StructError | OSError | ValueError | UnicodeDecodeError

text \<open>
  Every entry of \<^verbatim>\<open>responses\<close> is a dictionary with exactly the keys \<^verbatim>\<open>type\<close>,
  \<^verbatim>\<open>size\<close> and \<^verbatim>\<open>data\<close>, written in that order; it is a record here.
\<close>

record response =
  rtype :: int
  rsize :: int
  rdata :: pydict

subsection \<open>Response type and address family constants\<close>

definition RESP_PACKET :: int where "RESP_PACKET = 1"
definition RESP_SOCKNAME :: int where "RESP_SOCKNAME = 2"
definition RESP_DSTADDR :: int where "RESP_DSTADDR = 3"
definition RESP_PEERNAME :: int where "RESP_PEERNAME = 4"
definition RESP_READ_ERROR :: int where "RESP_READ_ERROR = 4"
definition RESP_DATA :: int where "RESP_DATA = 7"
definition RESP_TIMEOUT :: int where "RESP_TIMEOUT = 9"

definition AF_INET :: int where "AF_INET = 2"
definition AF_INET6 :: int where "AF_INET6 = 10"
definition AF_INET6_LOCAL :: int where "AF_INET6_LOCAL = 28"

lemmas resp_consts =
  RESP_PACKET_def RESP_SOCKNAME_def RESP_DSTADDR_def RESP_PEERNAME_def
  RESP_READ_ERROR_def RESP_DATA_def RESP_TIMEOUT_def

lemmas af_consts = AF_INET_def AF_INET6_def AF_INET6_LOCAL_def

section \<open>Library primitives\<close>

subsection \<open>Slices and \<^verbatim>\<open>struct.unpack\<close>\<close>

text \<open>
  \<^verbatim>\<open>data[a:b]\<close> with \<open>0 \<le> a \<le> b\<close> never raises: it returns the bytes that exist in
  the range. \<^verbatim>\<open>data[a:]\<close> is \<open>drop a data\<close>.
\<close>

definition bytes_slice :: "nat \<Rightarrow> nat \<Rightarrow> 'a list \<Rightarrow> 'a list" where
  "bytes_slice a b xs = take (b - a) (drop a xs)"

text \<open>The unsigned value of a byte string, least significant byte first.\<close>

fun le_value :: "byte list \<Rightarrow> int" where
  "le_value [] = 0"
| "le_value (b # bs) = uint b + 256 * le_value bs"

text \<open>
  \<^verbatim>\<open>struct.unpack('<H', b)[0]\<close>, \<^verbatim>\<open>struct.unpack('>H', b)[0]\<close> and
  \<^verbatim>\<open>struct.unpack('<I', b)[0]\<close>: the buffer must have exactly the size of the format.
\<close>

definition unpack_le_H :: "byte list \<Rightarrow> error + int" where
  "unpack_le_H b = (if length b = 2 then Inr (le_value b) else Inl StructError)"

definition unpack_be_H :: "byte list \<Rightarrow> error + int" where
  "unpack_be_H b = (if length b = 2 then Inr (le_value (rev b)) else Inl StructError)"

definition unpack_le_I :: "byte list \<Rightarrow> error + int" where
  "unpack_le_I b = (if length b = 4 then Inr (le_value b) else Inl StructError)"

subsection \<open>Number formatting\<close>

definition digit_chars :: string where
  "digit_chars = ''0123456789abcdef''"

fun show_base :: "nat \<Rightarrow> nat \<Rightarrow> string" where
  "show_base b n =
     (if b < 2 \<or> n < b then [digit_chars ! n]
      else show_base b (n div b) @ [digit_chars ! (n mod b)])"

declare show_base.simps [simp del]

definition show_dec :: "nat \<Rightarrow> string" where
  "show_dec n = show_base 10 n"

definition show_hex :: "nat \<Rightarrow> string" where
  "show_hex n = show_base 16 n"

subsection \<open>\<^verbatim>\<open>socket.inet_ntoa\<close> and \<^verbatim>\<open>socket.inet_ntop\<close>\<close>

text \<open>The dotted-decimal text of four octets.\<close>

definition dotted_quad :: "byte list \<Rightarrow> string" where
  "dotted_quad bs =
     show_dec (unat (bs ! 0)) @ ''.'' @ show_dec (unat (bs ! 1)) @ ''.'' @
     show_dec (unat (bs ! 2)) @ ''.'' @ show_dec (unat (bs ! 3))"

text \<open>\<^verbatim>\<open>socket.inet_ntoa(packed)\<close> raises \<^verbatim>\<open>OSError\<close> unless given exactly 4 bytes.\<close>

definition inet_ntoa :: "byte list \<Rightarrow> error + string" where
  "inet_ntoa packed = (if length packed = 4 then Inr (dotted_quad packed) else Inl OSError)"

text \<open>
  \<^verbatim>\<open>socket.inet_ntop(socket.AF_INET6, packed)\<close> hands 16 bytes to the C library. The
  formatter below follows the C library's routine: the eight 16-bit groups in lower-case
  hexadecimal without leading zeros, the first longest run of at least two zero groups
  written as \<^verbatim>\<open>::\<close>, and the last 32 bits in dotted-decimal form for the IPv4-compatible
  and IPv4-mapped shapes.
\<close>

fun words_of :: "byte list \<Rightarrow> nat list" where
  "words_of (a # b # rest) = (256 * unat a + unat b) # words_of rest"
| "words_of _ = []"

text \<open>
  The search for the best run of zero groups: \<open>best\<close> and \<open>cur\<close> are (base, length)
  pairs with base \<open>-1\<close> for "none", as in the C routine.
\<close>

definition run_step :: "nat list \<Rightarrow> (int \<times> int) \<times> (int \<times> int) \<Rightarrow> nat \<Rightarrow> (int \<times> int) \<times> (int \<times> int)" where
  "run_step ws s i =
     (let best = fst s; cur = snd s in
      if ws ! i = 0 then
        (if fst cur = -1 then (best, (int i, 1)) else (best, (fst cur, snd cur + 1)))
      else if fst cur \<noteq> -1 then
        ((if fst best = -1 \<or> snd cur > snd best then cur else best), (-1, snd cur))
      else (best, cur))"

definition best_run :: "nat list \<Rightarrow> int \<times> int" where
  "best_run ws =
     (let s = foldl (run_step ws) ((-1, 0), (-1, 0)) [0..<8];
          best = fst s; cur = snd s;
          best' = (if fst cur \<noteq> -1 \<and> (fst best = -1 \<or> snd cur > snd best) then cur else best)
      in if fst best' \<noteq> -1 \<and> snd best' < 2 then (-1, snd best') else best')"

fun format_groups :: "byte list \<Rightarrow> nat list \<Rightarrow> int \<times> int \<Rightarrow> nat list \<Rightarrow> string" where
  "format_groups src ws best [] = []"
| "format_groups src ws best (i # is) =
     (if fst best \<noteq> -1 \<and> int i \<ge> fst best \<and> int i < fst best + snd best then
        (if int i = fst best then '':'' else []) @ format_groups src ws best is
      else
        (if i \<noteq> 0 then '':'' else []) @
        (if i = 6 \<and> fst best = 0 \<and> (snd best = 6 \<or> (snd best = 5 \<and> ws ! 5 = 65535))
         then dotted_quad (drop 12 src)
         else show_hex (ws ! i) @ format_groups src ws best is))"

definition format_address :: "byte list \<Rightarrow> nat list \<Rightarrow> int \<times> int \<Rightarrow> string" where
  "format_address src ws best =
     format_groups src ws best [0..<8] @
     (if fst best \<noteq> -1 \<and> fst best + snd best = 8 then '':'' else [])"

definition ipv6_text :: "byte list \<Rightarrow> string" where
  "ipv6_text src = format_address src (words_of src) (best_run (words_of src))"

text \<open>\<^verbatim>\<open>socket.inet_ntop(socket.AF_INET6, packed)\<close> raises \<^verbatim>\<open>ValueError\<close> unless given 16 bytes.\<close>

definition inet_ntop6 :: "byte list \<Rightarrow> error + string" where
  "inet_ntop6 packed = (if length packed = 16 then Inr (ipv6_text packed) else Inl ValueError)"

section \<open>The SockAddr decoder: \<^verbatim>\<open>parse_sockaddr\<close>\<close>

text \<open>
  Lines 76 to 112 of the source: the dispatch on the family once the family-0 heuristic
  has not returned. \<open>Inr None\<close> is Python's \<^verbatim>\<open>return None\<close>.
\<close>

definition parse_sockaddr_family :: "byte list \<Rightarrow> int \<Rightarrow> error + pydict option" where
  "parse_sockaddr_family data family =
     (if family = AF_INET then
        (if length data < 8 then Inr None
         else case unpack_le_H (bytes_slice 2 4 data) of Inl e \<Rightarrow> Inl e | Inr port \<Rightarrow>
              (case inet_ntoa (bytes_slice 4 8 data) of Inl e \<Rightarrow> Inl e | Inr addr_str \<Rightarrow>
                 Inr (Some [(''family'', JStr ''AF_INET''),
                            (''address'', JStr addr_str),
                            (''port'', JInt port)])))
      else if family = AF_INET6 \<or> family = AF_INET6_LOCAL then
        (if length data < 24 then Inr None
         else case unpack_le_H (bytes_slice 2 4 data) of Inl e \<Rightarrow> Inl e | Inr port \<Rightarrow>
              (case unpack_le_I (bytes_slice 4 8 data) of Inl e \<Rightarrow> Inl e | Inr flowinfo \<Rightarrow>
              (case inet_ntop6 (bytes_slice 8 24 data) of Inl e \<Rightarrow> Inl e | Inr addr_str \<Rightarrow>
                 (let result = [(''family'', JStr ''AF_INET6''),
                                (''address'', JStr addr_str),
                                (''port'', JInt port),
                                (''flowinfo'', JInt flowinfo)]
                  in if length data \<ge> 28 then
                       (case unpack_le_I (bytes_slice 24 28 data) of Inl e \<Rightarrow> Inl e | Inr scope_id \<Rightarrow>
                          Inr (Some (result @ [(''scope_id'', JInt scope_id)])))
                     else Inr (Some result)))))
      else Inr None)"

text \<open>
  Lines 43 to 74: with family 0 and at least 8 bytes the port is read at offset 6 in both
  byte orders and the address at offset 8. \<^verbatim>\<open>socket.inet_ntoa\<close> sits in a
  \<^verbatim>\<open>try\<close> whose bare \<^verbatim>\<open>except\<close> passes, so its failure falls through to the family
  dispatch; the two \<^verbatim>\<open>struct.unpack\<close> calls are outside the \<^verbatim>\<open>try\<close>.
\<close>

definition parse_sockaddr :: "byte list \<Rightarrow> int \<Rightarrow> error + pydict option" where
  "parse_sockaddr data family =
     (if family = 0 \<and> length data \<ge> 8 then
        (case unpack_be_H (bytes_slice 6 8 data) of Inl e \<Rightarrow> Inl e | Inr port_be \<Rightarrow>
         (case unpack_le_H (bytes_slice 6 8 data) of Inl e \<Rightarrow> Inl e | Inr port_le \<Rightarrow>
            (let port = (if port_be = 80 then port_be
                         else if port_le = 80 then port_le
                         else port_le);
                 addr_bytes = bytes_slice 8 12 data
             in case inet_ntoa addr_bytes of
                  Inr addr_str \<Rightarrow>
                    (if addr_str = ''0.0.0.0'' then
                       Inr (Some [(''family'', JStr ''AF_INET''),
                                  (''address'', JNone),
                                  (''port'', JInt port)])
                     else
                       Inr (Some [(''family'', JStr ''AF_INET''),
                                  (''address'', JStr addr_str),
                                  (''port'', JInt port)]))
                | Inl e \<Rightarrow> parse_sockaddr_family data family)))
      else parse_sockaddr_family data family)"

text \<open>
  The port choice in the words of the specification: the two bytes at offset 6 read in both
  byte orders; the big-endian reading if it is 80, else the little-endian reading if it is
  80, else the little-endian reading.
\<close>

definition port_be :: "byte list \<Rightarrow> int" where
  "port_be data = 256 * uint (data ! 6) + uint (data ! 7)"

definition port_le :: "byte list \<Rightarrow> int" where
  "port_le data = uint (data ! 6) + 256 * uint (data ! 7)"

definition spec_port_choice :: "byte list \<Rightarrow> int" where
  "spec_port_choice data =
     (if port_be data = 80 then port_be data
      else if port_le data = 80 then port_le data
      else port_le data)"

section \<open>Text encodings\<close>

subsection \<open>\<^verbatim>\<open>bytes.hex\<close>\<close>

fun bytes_hex :: "byte list \<Rightarrow> string" where
  "bytes_hex [] = []"
| "bytes_hex (b # bs) =
     digit_chars ! (unat b div 16) # digit_chars ! (unat b mod 16) # bytes_hex bs"

subsection \<open>\<^verbatim>\<open>base64.b64encode\<close>\<close>

definition b64_chars :: string where
  "b64_chars = ''ABCDEFGHIJKLMNOPQRSTUVWXYZabcdefghijklmnopqrstuvwxyz0123456789+/''"

text \<open>
  Three bytes become four characters of six bits each; a last group of one or two bytes
  is padded with \<^verbatim>\<open>=\<close>.
\<close>

fun b64encode :: "byte list \<Rightarrow> string" where
  "b64encode [] = []"
| "b64encode [a] =
     [b64_chars ! (unat a div 4), b64_chars ! (unat a mod 4 * 16), CHR ''='', CHR ''='']"
| "b64encode [a, b] =
     [b64_chars ! (unat a div 4), b64_chars ! (unat a mod 4 * 16 + unat b div 16),
      b64_chars ! (unat b mod 16 * 4), CHR ''='']"
| "b64encode (a # b # c # rest) =
     [b64_chars ! (unat a div 4), b64_chars ! (unat a mod 4 * 16 + unat b div 16),
      b64_chars ! (unat b mod 16 * 4 + unat c div 64), b64_chars ! (unat c mod 64)]
     @ b64encode rest"

text \<open>
  The converter never decodes base64. The decoder below is the inverse a reader of the
  document applies (\<^verbatim>\<open>base64.b64decode\<close> on padded standard-alphabet text); it is
  used only to state that the \<^verbatim>\<open>base64\<close> field loses nothing.
\<close>

fun index_of :: "'a \<Rightarrow> 'a list \<Rightarrow> nat" where
  "index_of x [] = 0"
| "index_of x (y # ys) = (if x = y then 0 else Suc (index_of x ys))"

definition b64_index :: "char \<Rightarrow> nat" where
  "b64_index c = index_of c b64_chars"

fun b64decode :: "string \<Rightarrow> byte list" where
  "b64decode (c0 # c1 # c2 # c3 # rest) =
     (let i0 = b64_index c0; i1 = b64_index c1; i2 = b64_index c2; i3 = b64_index c3 in
      if c2 = CHR ''='' then [of_nat (i0 * 4 + i1 div 16)]
      else if c3 = CHR ''='' then
        [of_nat (i0 * 4 + i1 div 16), of_nat (i1 mod 16 * 16 + i2 div 4)]
      else
        [of_nat (i0 * 4 + i1 div 16), of_nat (i1 mod 16 * 16 + i2 div 4),
         of_nat (i2 mod 4 * 64 + i3)] @ b64decode rest)"
| "b64decode _ = []"

subsection \<open>\<^verbatim>\<open>bytes.decode('utf-8', errors=...)\<close>\<close>

text \<open>
  The \<^verbatim>\<open>errors\<close> argument selects what the decoder does with an invalid sequence:
  \<^verbatim>\<open>'strict'\<close> raises \<^verbatim>\<open>UnicodeDecodeError\<close>, \<^verbatim>\<open>'ignore'\<close> drops the offending
  bytes and goes on.
\<close>

datatype errors_mode = Strict | Ignore

definition is_cont :: "byte \<Rightarrow> bool" where
  "is_cont b = (128 \<le> unat b \<and> unat b < 192)"

text \<open>
  One step of the decoder on a non-empty input: \<open>(Some cp, n)\<close> when the first \<open>n\<close>
  bytes encode the code point \<open>cp\<close>, \<open>(None, n)\<close> when the first \<open>n\<close> bytes are an
  invalid start byte, a sequence broken by a byte that is no continuation byte (or that
  would give an overlong form, a surrogate or a value above U+10FFFF), or a sequence
  cut off by the end of the input.
\<close>

definition utf8_step :: "byte list \<Rightarrow> nat option \<times> nat" where
  "utf8_step bs =
     (let ch = unat (bs ! 0); n = length bs in
      if ch < 128 then (Some ch, 1)
      else if ch < 224 then
        (if ch < 194 then (None, 1)
         else if n < 2 then (None, n)
         else if \<not> is_cont (bs ! 1) then (None, 1)
         else (Some ((ch - 192) * 64 + (unat (bs ! 1) - 128)), 2))
      else if ch < 240 then
        (if n < 3 then
           (if n < 2 then (None, n)
            else if \<not> is_cont (bs ! 1)
                    \<or> (if unat (bs ! 1) < 160 then ch = 224 else ch = 237) then (None, 1)
            else (None, n))
         else if \<not> is_cont (bs ! 1) then (None, 1)
         else if ch = 224 \<and> unat (bs ! 1) < 160 then (None, 1)
         else if ch = 237 \<and> unat (bs ! 1) \<ge> 160 then (None, 1)
         else if \<not> is_cont (bs ! 2) then (None, 2)
         else (Some ((ch - 224) * 4096 + (unat (bs ! 1) - 128) * 64 + (unat (bs ! 2) - 128)), 3))
      else if ch < 245 then
        (if n < 4 then
           (if n < 2 then (None, n)
            else if \<not> is_cont (bs ! 1)
                    \<or> (if unat (bs ! 1) < 144 then ch = 240 else ch = 244) then (None, 1)
            else if n < 3 then (None, n)
            else if \<not> is_cont (bs ! 2) then (None, 2)
            else (None, n))
         else if \<not> is_cont (bs ! 1) then (None, 1)
         else if ch = 240 \<and> unat (bs ! 1) < 144 then (None, 1)
         else if ch = 244 \<and> unat (bs ! 1) \<ge> 144 then (None, 1)
         else if \<not> is_cont (bs ! 2) then (None, 2)
         else if \<not> is_cont (bs ! 3) then (None, 3)
         else (Some ((ch - 240) * 262144 + (unat (bs ! 1) - 128) * 4096
                     + (unat (bs ! 2) - 128) * 64 + (unat (bs ! 3) - 128)), 4))
      else (None, 1))"

lemma pos_if: "0 < a \<Longrightarrow> 0 < b \<Longrightarrow> (0::nat) < (if c then a else b)"
  by simp

lemma utf8_step_pos: "bs \<noteq> [] \<Longrightarrow> 0 < snd (utf8_step bs)"
  unfolding utf8_step_def Let_def
  by (simp only: if_distrib [of snd] snd_conv) (intro pos_if; simp)

lemma utf8_step_drop:
  assumes "bs \<noteq> []" and "(r, n) = utf8_step bs"
  shows "length bs - n < length bs"
proof -
  have "0 < n" using utf8_step_pos [OF assms(1)] assms(2) by (metis snd_conv)
  with assms(1) show ?thesis by simp
qed

function decode_utf8 :: "errors_mode \<Rightarrow> byte list \<Rightarrow> error + nat list" where
  "decode_utf8 mode bs =
     (if bs = [] then Inr []
      else case utf8_step bs of
        (Some cp, n) \<Rightarrow>
          (case decode_utf8 mode (drop n bs) of Inl e \<Rightarrow> Inl e | Inr cps \<Rightarrow> Inr (cp # cps))
      | (None, n) \<Rightarrow>
          (case mode of Strict \<Rightarrow> Inl UnicodeDecodeError
                      | Ignore \<Rightarrow> decode_utf8 mode (drop n bs)))"
  by pat_completeness auto
termination
  by (relation "measure (\<lambda>(mode, bs). length bs)") (auto intro: utf8_step_drop)

declare decode_utf8.simps [simp del]

section \<open>The record decoder\<close>

text \<open>
  \<^verbatim>\<open>resp_data.hex() if resp_size <= 100 else resp_data[:100].hex() + "..."\<close>, the
  expression of lines 159, 173 and 186.
\<close>

definition hex_or_truncated :: "int \<Rightarrow> byte list \<Rightarrow> string" where
  "hex_or_truncated resp_size resp_data =
     (if resp_size \<le> 100 then bytes_hex resp_data
      else bytes_hex (bytes_slice 0 100 resp_data) @ ''...'')"

text \<open>
  Python's truth value of what \<^verbatim>\<open>parse_sockaddr\<close> returned (line 147): \<^verbatim>\<open>None\<close> and
  the empty dictionary are false.
\<close>

definition truthy :: "pydict option \<Rightarrow> bool" where
  "truthy d = (case d of None \<Rightarrow> False | Some kvs \<Rightarrow> kvs \<noteq> [])"

text \<open>
  Lines 141 to 188: the \<^verbatim>\<open>if\<close>/\<^verbatim>\<open>elif\<close> chain that fills \<^verbatim>\<open>response["data"]\<close>,
  in the order of the source. The \<^verbatim>\<open>try\<close> of the generic-data branch has a bare
  \<^verbatim>\<open>except\<close>, so any error of the decode step selects the fallback dictionary.
\<close>

definition convert_response :: "int \<Rightarrow> int \<Rightarrow> byte list \<Rightarrow> error + response" where
  "convert_response resp_type resp_size resp_data =
     (if resp_type \<in> set [RESP_DSTADDR, RESP_SOCKNAME, RESP_PEERNAME] \<and> resp_size \<ge> 6 then
        (case unpack_le_H (bytes_slice 4 6 resp_data) of Inl e \<Rightarrow> Inl e | Inr family \<Rightarrow>
         (case parse_sockaddr (drop 4 resp_data) family of Inl e \<Rightarrow> Inl e
          | Inr sockaddr_data \<Rightarrow>
             (if truthy sockaddr_data then
                Inr \<lparr>rtype = resp_type, rsize = resp_size, rdata = the sockaddr_data\<rparr>
              else
                Inr \<lparr>rtype = resp_type, rsize = resp_size,
                     rdata = [(''raw_base64'', JStr (b64encode resp_data)),
                              (''raw_hex'', JStr (bytes_hex resp_data))]\<rparr>)))
      else if resp_type = RESP_PACKET then
        Inr \<lparr>rtype = resp_type, rsize = resp_size,
             rdata = [(''size'', JInt resp_size),
                      (''base64'', JStr (b64encode resp_data)),
                      (''hex'', JStr (hex_or_truncated resp_size resp_data))]\<rparr>
      else if resp_type = RESP_DATA then
        (case decode_utf8 Ignore resp_data of
           Inr text_data \<Rightarrow>
             Inr \<lparr>rtype = resp_type, rsize = resp_size,
                  rdata = [(''text'', JText text_data),
                           (''size'', JInt resp_size),
                           (''base64'', JStr (b64encode resp_data))]\<rparr>
         | Inl e \<Rightarrow>
             Inr \<lparr>rtype = resp_type, rsize = resp_size,
                  rdata = [(''base64'', JStr (b64encode resp_data)),
                           (''hex'', JStr (hex_or_truncated resp_size resp_data)),
                           (''size'', JInt resp_size)]\<rparr>)
      else if resp_type = RESP_TIMEOUT then
        Inr \<lparr>rtype = resp_type, rsize = resp_size, rdata = [(''timeout'', JBool True)]\<rparr>
      else if resp_type = RESP_READ_ERROR then
        Inr \<lparr>rtype = resp_type, rsize = resp_size, rdata = [(''error'', JBool True)]\<rparr>
      else
        Inr \<lparr>rtype = resp_type, rsize = resp_size,
             rdata = [(''base64'', JStr (b64encode resp_data)),
                      (''hex'', JStr (hex_or_truncated resp_size resp_data)),
                      (''size'', JInt resp_size)]\<rparr>)"

section \<open>The record stream reader\<close>

text \<open>
  The open file is the list of bytes not yet read. \<^verbatim>\<open>f.read(n)\<close> returns the next
  \<open>n\<close> bytes, or all that are left when fewer remain, and advances the file.
\<close>

definition f_read :: "nat \<Rightarrow> byte list \<Rightarrow> byte list \<times> byte list" where
  "f_read n f = (take n f, drop n f)"

text \<open>
  Lines 121 to 138, the reading part of one loop iteration. \<open>Inr None\<close> is a
  \<^verbatim>\<open>break\<close>; \<open>Inr (Some (resp_type, resp_size, resp_data, f'))\<close> is a record read in
  full, with \<open>f'\<close> the file after it.
\<close>

definition read_record :: "byte list \<Rightarrow> error + (int \<times> int \<times> byte list \<times> byte list) option" where
  "read_record f =
     (case f_read 4 f of (type_data, f1) \<Rightarrow>
      if length type_data < 4 then Inr None
      else case unpack_le_I type_data of Inl e \<Rightarrow> Inl e | Inr resp_type \<Rightarrow>
       (case f_read 4 f1 of (size_data, f2) \<Rightarrow>
        if length size_data < 4 then Inr None
        else case unpack_le_I size_data of Inl e \<Rightarrow> Inl e | Inr resp_size \<Rightarrow>
          (if resp_size > 0 then
             (case f_read (nat resp_size) f2 of (resp_data, f3) \<Rightarrow>
                if int (length resp_data) < resp_size then Inr None
                else Inr (Some (resp_type, resp_size, resp_data, f3)))
           else Inr (Some (resp_type, resp_size, [], f2)))))"

lemma read_record_shorter:
  assumes "read_record f = Inr (Some (resp_type, resp_size, resp_data, f'))"
  shows "length f' < length f"
  using assms
  by (auto simp: read_record_def f_read_def unpack_le_I_def min_def
           split: if_splits sum.splits)

text \<open>
  Lines 119 to 190: the \<^verbatim>\<open>while True\<close> loop. Each iteration reads one record,
  converts it and appends it to \<^verbatim>\<open>responses\<close>; an exception leaves the loop and the
  function.
\<close>

function convert_loop :: "byte list \<Rightarrow> response list \<Rightarrow> error + response list" where
  "convert_loop f responses =
     (case read_record f of
        Inl e \<Rightarrow> Inl e
      | Inr None \<Rightarrow> Inr responses
      | Inr (Some (resp_type, resp_size, resp_data, f')) \<Rightarrow>
          (case convert_response resp_type resp_size resp_data of
             Inl e \<Rightarrow> Inl e
           | Inr response \<Rightarrow> convert_loop f' (responses @ [response])))"
  by pat_completeness auto
termination
  by (relation "measure (\<lambda>(f, responses). length f)") (auto intro: read_record_shorter)

declare convert_loop.simps [simp del]

text \<open>The list \<^verbatim>\<open>responses\<close> that \<^verbatim>\<open>convert_binary_file\<close> has built when the file is read.\<close>

definition read_responses :: "byte list \<Rightarrow> error + response list" where
  "read_responses content = convert_loop content []"

text \<open>
  A file starts with a complete record when it holds the 8 header bytes and at least as
  many payload bytes as the size field announces.
\<close>

definition complete_record :: "byte list \<Rightarrow> bool" where
  "complete_record f \<longleftrightarrow>
     8 \<le> length f \<and> nat (le_value (take 4 (drop 4 f))) \<le> length f - 8"

text \<open>
  The number of file bytes that a list of emitted records accounts for: 8 header bytes and
  \<^verbatim>\<open>size\<close> payload bytes each.
\<close>

definition consumed :: "response list \<Rightarrow> nat" where
  "consumed rs = sum_list (map (\<lambda>r. 8 + nat (rsize r)) rs)"

section \<open>Auxiliary facts\<close>

subsection \<open>Slices and address text\<close>

lemma take2_drop:
  "a + 2 \<le> length xs \<Longrightarrow> take 2 (drop a xs) = [xs ! a, xs ! (a + 1)]"
  by (simp add: numeral_2_eq_2 take_Suc_conv_app_nth)

lemma take4_drop:
  "a + 4 \<le> length xs \<Longrightarrow> take 4 (drop a xs) = [xs ! a, xs ! (a + 1), xs ! (a + 2), xs ! (a + 3)]"
  by (simp add: numeral_eq_Suc take_Suc_conv_app_nth add.commute)

lemma digit_lt_10: 
  assumes "k < 10" shows "digit_chars ! k \<in> set ''0123456789''"
proof -
  from assms have "k \<in> {0,1,2,3,4,5,6,7,8,9}" by auto
  then show ?thesis by (auto simp: digit_chars_def)
qed

lemma digit_zero_iff:
  assumes "k < 10" shows "digit_chars ! k = CHR ''0'' \<longleftrightarrow> k = 0"
proof -
  from assms have "k \<in> {0,1,2,3,4,5,6,7,8,9}" by auto
  then show ?thesis by (auto simp: digit_chars_def)
qed

lemma show_dec_nonempty: "show_dec n \<noteq> []"
  unfolding show_dec_def by (subst show_base.simps) simp

lemma show_dec_digits: "set (show_dec n) \<subseteq> set ''0123456789''"
  unfolding show_dec_def
proof (induction "10::nat" n rule: show_base.induct)
  case (1 n)
  show ?case
  proof (cases "n < 10")
    case True
    then show ?thesis using digit_lt_10 [of n] by (subst show_base.simps) simp
  next
    case False
    then have "set (show_base 10 (n div 10)) \<subseteq> set ''0123456789''" using 1 by simp
    moreover have "digit_chars ! (n mod 10) \<in> set ''0123456789''" by (rule digit_lt_10) simp
    ultimately show ?thesis using False by (subst show_base.simps) simp
  qed
qed

lemma show_dec_no_dot: "CHR ''.'' \<notin> set (show_dec n)"
  using show_dec_digits [of n] by auto

lemma show_dec_zero_iff: "show_dec n = ''0'' \<longleftrightarrow> n = 0"
proof (cases "n < 10")
  case True
  then show ?thesis using digit_zero_iff [of n] 
    unfolding show_dec_def by (subst show_base.simps) simp
next
  case False
  have "show_base 10 (n div 10) \<noteq> []" using show_dec_nonempty [of "n div 10"] by (simp add: show_dec_def)
  then have "length (show_base 10 (n div 10) @ [digit_chars ! (n mod 10)]) \<noteq> 1" by simp
  then have "show_base 10 n \<noteq> ''0''" using False by (subst show_base.simps) auto
  then show ?thesis using False by (simp add: show_dec_def)
qed

lemma split_at_dot:
  assumes "CHR ''.'' \<notin> set s" and "CHR ''.'' \<notin> set t" and "s @ CHR ''.'' # x = t @ CHR ''.'' # y"
  shows "s = t \<and> x = y"
  using assms
proof (induction s arbitrary: t)
  case Nil
  then show ?case by (cases t) auto
next
  case (Cons c s)
  then show ?case by (cases t) auto
qed

lemma dotted_quad_zero_iff:
  "dotted_quad [a, b, c, d] = ''0.0.0.0'' \<longleftrightarrow> a = 0 \<and> b = 0 \<and> c = 0 \<and> d = 0"
proof
  assume eq: "dotted_quad [a, b, c, d] = ''0.0.0.0''"
  let ?r1 = "show_dec (unat b) @ CHR ''.'' # show_dec (unat c) @ CHR ''.'' # show_dec (unat d)"
  let ?r2 = "show_dec (unat c) @ CHR ''.'' # show_dec (unat d)"
  from eq have e0: "show_dec (unat a) @ CHR ''.'' # ?r1 = ''0'' @ CHR ''.'' # ''0.0.0''"
    by (simp add: dotted_quad_def)
  have a: "show_dec (unat a) = ''0'' \<and> ?r1 = ''0.0.0''"
    by (rule split_at_dot [OF show_dec_no_dot _ e0]) simp
  then have e1: "show_dec (unat b) @ CHR ''.'' # ?r2 = ''0'' @ CHR ''.'' # ''0.0''" by simp
  have b: "show_dec (unat b) = ''0'' \<and> ?r2 = ''0.0''"
    by (rule split_at_dot [OF show_dec_no_dot _ e1]) simp
  then have e2: "show_dec (unat c) @ CHR ''.'' # show_dec (unat d) = ''0'' @ CHR ''.'' # ''0''" by simp
  have c: "show_dec (unat c) = ''0'' \<and> show_dec (unat d) = ''0''"
    by (rule split_at_dot [OF show_dec_no_dot _ e2]) simp
  from a b c show "a = 0 \<and> b = 0 \<and> c = 0 \<and> d = 0"
    by (simp add: show_dec_zero_iff unat_eq_0)
next
  assume "a = 0 \<and> b = 0 \<and> c = 0 \<and> d = 0"
  then show "dotted_quad [a, b, c, d] = ''0.0.0.0''"
    by (simp add: dotted_quad_def show_dec_def show_base.simps digit_chars_def)
qed

subsection \<open>The family-0 heuristic\<close>

lemma parse_sockaddr_family_0: "parse_sockaddr_family data 0 = Inr None"
  by (simp add: parse_sockaddr_family_def af_consts)

lemma parse_sockaddr_0_long:
  assumes "12 \<le> length data"
  shows "parse_sockaddr data 0 =
           Inr (Some [(''family'', JStr ''AF_INET''),
                      (''address'', if data ! 8 = 0 \<and> data ! 9 = 0 \<and> data ! 10 = 0 \<and> data ! 11 = 0
                                    then JNone
                                    else JStr (dotted_quad [data ! 8, data ! 9, data ! 10, data ! 11])),
                      (''port'', JInt (spec_port_choice data))])"
proof -
  from assms have p: "take 2 (drop 6 data) = [data ! 6, data ! 7]"
    using take2_drop [of 6 data] by simp
  from assms have a: "take 4 (drop 8 data) = [data ! 8, data ! 9, data ! 10, data ! 11]"
    using take4_drop [of 8 data] by simp
  show ?thesis
    using assms
    by (simp add: parse_sockaddr_def bytes_slice_def unpack_le_H_def unpack_be_H_def
        inet_ntoa_def p a dotted_quad_zero_iff spec_port_choice_def port_be_def port_le_def Let_def)
qed

lemma parse_sockaddr_0_short:
  assumes "8 \<le> length data" and "length data < 12"
  shows "parse_sockaddr data 0 = Inr None"
proof -
  from assms have p: "take 2 (drop 6 data) = [data ! 6, data ! 7]"
    using take2_drop [of 6 data] by simp
  from assms have a: "length (take 4 (drop 8 data)) \<noteq> 4" by simp
  show ?thesis
    using assms(1) a
    by (simp add: parse_sockaddr_def bytes_slice_def unpack_le_H_def unpack_be_H_def
        inet_ntoa_def p parse_sockaddr_family_0 Let_def)
qed

subsection \<open>Permissive text decoding\<close>

lemma decode_utf8_ignore_total: "\<exists>cps. decode_utf8 Ignore bs = Inr cps"
proof (induction bs rule: length_induct)
  case (1 bs)
  show ?case
  proof (cases "bs = []")
    case True
    then show ?thesis by (subst decode_utf8.simps) simp
  next
    case False
    obtain r n where step: "utf8_step bs = (r, n)" by (cases "utf8_step bs")
    with False have "length bs - n < length bs" using utf8_step_drop [of bs r n] by simp
    then have "length (drop n bs) < length bs" by simp
    with 1 obtain cps where rest: "decode_utf8 Ignore (drop n bs) = Inr cps" by blast
    show ?thesis
    proof (cases r)
      case None
      with False step rest show ?thesis by (subst decode_utf8.simps) simp
    next
      case (Some cp)
      with False step rest show ?thesis by (subst decode_utf8.simps) simp
    qed
  qed
qed

subsection \<open>Base64 and hex text\<close>

lemma index_of_nth: "distinct xs \<Longrightarrow> i < length xs \<Longrightarrow> index_of (xs ! i) xs = i"
proof (induction xs arbitrary: i)
  case Nil
  then show ?case by simp
next
  case (Cons x xs)
  then show ?case by (cases i) auto
qed

lemma b64_chars_distinct: "distinct b64_chars"
  by (simp add: b64_chars_def)

lemma b64_chars_length: "length b64_chars = 64"
  by (simp add: b64_chars_def)

lemma b64_chars_no_pad: "CHR ''='' \<notin> set b64_chars"
  by (simp add: b64_chars_def)

lemma b64_index_nth: "i < 64 \<Longrightarrow> b64_index (b64_chars ! i) = i"
  by (simp add: b64_index_def index_of_nth b64_chars_distinct b64_chars_length)

lemma b64_nth_no_pad: "i < 64 \<Longrightarrow> b64_chars ! i \<noteq> CHR ''=''"
  using b64_chars_no_pad nth_mem [of i b64_chars] by (metis b64_chars_length)


lemma unat_byte_lt: "unat (b :: byte) < 256"
proof -
  have "unat b < 2 ^ LENGTH(8)" by (rule unsigned_less)
  then show ?thesis by simp
qed

lemma sextet_parts:
  fixes x y k :: nat
  assumes "y < k"
  shows "(x * k + y) div k = x" and "(x * k + y) mod k = y"
  using assms by simp_all

lemma sextet_bound:
  fixes x y :: nat
  assumes "x < m" and "y < k"
  shows "x * k + y < m * k"
proof -
  have "x * k + y < x * k + k" using assms(2) by simp
  also have "\<dots> = (x + 1) * k" by simp
  also have "\<dots> \<le> m * k" using assms(1) by (intro mult_le_mono1) simp
  finally show ?thesis .
qed

lemma byte_div4: "unat (a :: byte) div 4 < 64"
  using unat_byte_lt [of a] by simp

lemma byte_div16: "unat (a :: byte) div 16 < 16"
  using unat_byte_lt [of a] by simp

lemma byte_div64: "unat (a :: byte) div 64 < 4"
  using unat_byte_lt [of a] by simp

lemma sextet1_lt: "unat (a :: byte) mod 4 * 16 + unat (b :: byte) div 16 < 64"
  using sextet_bound [of "unat a mod 4" 4 "unat b div 16" 16] byte_div16 [of b] by simp

lemma sextet2_lt: "unat (b :: byte) mod 16 * 4 + unat (c :: byte) div 64 < 64"
  using sextet_bound [of "unat b mod 16" 16 "unat c div 64" 4] byte_div64 [of c] by simp

lemma sextet1_pad_lt: "unat (a :: byte) mod 4 * 16 < 64"
  using sextet_bound [of "unat a mod 4" 4 0 16] by simp

lemma sextet2_pad_lt: "unat (b :: byte) mod 16 * 4 < 64"
  using sextet_bound [of "unat b mod 16" 16 0 4] by simp

lemma octet0: "of_nat (unat a div 4 * 4 + (unat a mod 4 * 16 + y) div 16) = (a :: byte)"
  if "y < 16" for y
  using that by (simp add: sextet_parts)

lemma octet1: "of_nat ((x * 16 + unat b div 16) mod 16 * 16 + (unat b mod 16 * 4 + y) div 4) = (b :: byte)"
  if "y < 4" for x y
  using that byte_div16 [of b] by (simp add: sextet_parts)

lemma octet2: "of_nat ((x * 4 + unat c div 64) mod 4 * 64 + unat c mod 64) = (c :: byte)"
  for x
  using byte_div64 [of c] by (simp add: sextet_parts)


lemma byte_mod64: "unat (c :: byte) mod 64 < 64"
  by simp

lemma b64decode_group1:
  assumes "i0 < 64" and "i1 < 64"
  shows "b64decode [b64_chars ! i0, b64_chars ! i1, CHR ''='', CHR ''=''] =
           [of_nat (i0 * 4 + i1 div 16)]"
  using assms by (simp add: b64_index_nth)

lemma b64decode_group2:
  assumes "i0 < 64" and "i1 < 64" and "i2 < 64"
  shows "b64decode [b64_chars ! i0, b64_chars ! i1, b64_chars ! i2, CHR ''=''] =
           [of_nat (i0 * 4 + i1 div 16), of_nat (i1 mod 16 * 16 + i2 div 4)]"
  using assms by (simp add: b64_index_nth b64_nth_no_pad)

lemma b64decode_group3:
  assumes "i0 < 64" and "i1 < 64" and "i2 < 64" and "i3 < 64"
  shows "b64decode ([b64_chars ! i0, b64_chars ! i1, b64_chars ! i2, b64_chars ! i3] @ rest) =
           [of_nat (i0 * 4 + i1 div 16), of_nat (i1 mod 16 * 16 + i2 div 4),
            of_nat (i2 mod 4 * 64 + i3)] @ b64decode rest"
  using assms by (simp add: b64_index_nth b64_nth_no_pad)

lemma zero_lt_16: "(0::nat) < 16" and zero_lt_4: "(0::nat) < 4"
  by simp_all

lemma b64decode_b64encode: "b64decode (b64encode bs) = bs"
proof (induction bs rule: b64encode.induct)
  case 1
  then show ?case by simp
next
  case (2 a)
  have "b64decode (b64encode [a]) = [of_nat (unat a div 4 * 4 + (unat a mod 4 * 16 + 0) div 16)]"
    by (simp only: b64encode.simps b64decode_group1 [OF byte_div4 sextet1_pad_lt] add_0_right)
  also have "\<dots> = [a]"
    by (simp only: octet0 [OF zero_lt_16])
  finally show ?case .
next
  case (3 a b)
  have "b64decode (b64encode [a, b]) =
          [of_nat (unat a div 4 * 4 + (unat a mod 4 * 16 + unat b div 16) div 16),
           of_nat ((unat a mod 4 * 16 + unat b div 16) mod 16 * 16 + (unat b mod 16 * 4 + 0) div 4)]"
    by (simp only: b64encode.simps b64decode_group2 [OF byte_div4 sextet1_lt sextet2_pad_lt]
        add_0_right)
  also have "\<dots> = [a, b]"
    by (simp only: octet0 [OF byte_div16] octet1 [OF zero_lt_4])
  finally show ?case .
next
  case (4 a b c rest)
  have "b64decode (b64encode (a # b # c # rest)) =
          [of_nat (unat a div 4 * 4 + (unat a mod 4 * 16 + unat b div 16) div 16),
           of_nat ((unat a mod 4 * 16 + unat b div 16) mod 16 * 16
                   + (unat b mod 16 * 4 + unat c div 64) div 4),
           of_nat ((unat b mod 16 * 4 + unat c div 64) mod 4 * 64 + unat c mod 64)]
          @ b64decode (b64encode rest)"
    by (simp only: b64encode.simps
        b64decode_group3 [OF byte_div4 sextet1_lt sextet2_lt byte_mod64])
  also have "\<dots> = [a, b, c] @ rest"
    by (simp only: octet0 [OF byte_div16] octet1 [OF byte_div64] octet2 4)
  finally show ?case by simp
qed

lemma length_bytes_hex: "length (bytes_hex bs) = 2 * length bs"
  by (induction bs) simp_all

subsection \<open>Shape of the decoder's result and the address-class branch\<close>

lemma parse_sockaddr_family_shape:
  "parse_sockaddr_family data family = Inr None
   \<or> (\<exists>name rest. parse_sockaddr_family data family = Inr (Some ((''family'', JStr name) # rest)))"
  by (simp add: parse_sockaddr_family_def unpack_le_H_def unpack_le_I_def inet_ntoa_def
      inet_ntop6_def bytes_slice_def Let_def)

lemma parse_sockaddr_shape:
  "parse_sockaddr data family = Inr None
   \<or> (\<exists>name rest. parse_sockaddr data family = Inr (Some ((''family'', JStr name) # rest)))"
proof (cases "family = 0 \<and> 8 \<le> length data")
  case True
  show ?thesis
  proof (cases "12 \<le> length data")
    case True
    then show ?thesis using \<open>family = 0 \<and> 8 \<le> length data\<close> by (simp add: parse_sockaddr_0_long)
  next
    case False
    then show ?thesis using \<open>family = 0 \<and> 8 \<le> length data\<close> by (simp add: parse_sockaddr_0_short)
  qed
next
  case False
  then have "parse_sockaddr data family = parse_sockaddr_family data family"
    by (auto simp: parse_sockaddr_def)
  then show ?thesis using parse_sockaddr_family_shape [of data family] by simp
qed


lemma header_family:
  assumes "6 \<le> length resp_data"
  shows "unpack_le_H (bytes_slice 4 6 resp_data) =
           Inr (uint (resp_data ! 4) + 256 * uint (resp_data ! 5))"
  using assms take2_drop [of 4 resp_data] by (simp add: unpack_le_H_def bytes_slice_def)

lemma address_class_set:
  "resp_type \<in> set [RESP_DSTADDR, RESP_SOCKNAME, RESP_PEERNAME]
     \<longleftrightarrow> resp_type = 2 \<or> resp_type = 3 \<or> resp_type = 4"
  by (auto simp: resp_consts)

lemma convert_response_address_none:
  assumes "resp_type = 2 \<or> resp_type = 3 \<or> resp_type = 4" and "6 \<le> resp_size"
    and "resp_size = int (length resp_data)"
    and "parse_sockaddr (drop 4 resp_data)
           (uint (resp_data ! 4) + 256 * uint (resp_data ! 5)) = Inr None"
  shows "convert_response resp_type resp_size resp_data =
           Inr \<lparr>rtype = resp_type, rsize = resp_size,
                rdata = [(''raw_base64'', JStr (b64encode resp_data)),
                         (''raw_hex'', JStr (bytes_hex resp_data))]\<rparr>"
proof -
  from assms(2,3) have len: "6 \<le> length resp_data" by simp
  show ?thesis
    unfolding convert_response_def
    by (simp only: address_class_set assms(1,2) header_family [OF len] assms(4))
       (simp add: truthy_def assms(4))
qed

lemma convert_response_address_some:
  assumes "resp_type = 2 \<or> resp_type = 3 \<or> resp_type = 4" and "6 \<le> resp_size"
    and "resp_size = int (length resp_data)"
    and "parse_sockaddr (drop 4 resp_data)
           (uint (resp_data ! 4) + 256 * uint (resp_data ! 5)) = Inr (Some (kv # rest))"
  shows "convert_response resp_type resp_size resp_data =
           Inr \<lparr>rtype = resp_type, rsize = resp_size, rdata = kv # rest\<rparr>"
proof -
  from assms(2,3) have len: "6 \<le> length resp_data" by simp
  show ?thesis
    unfolding convert_response_def
    by (simp only: address_class_set assms(1,2) header_family [OF len] assms(4))
       (simp add: truthy_def assms(4))
qed

lemma convert_response_short:
  assumes "resp_type = 2 \<or> resp_type = 3 \<or> resp_type = 4" and "resp_size < 6"
  shows "convert_response resp_type resp_size resp_data =
           Inr \<lparr>rtype = resp_type, rsize = resp_size,
                rdata = (if resp_type = 4 then [(''error'', JBool True)]
                         else [(''base64'', JStr (b64encode resp_data)),
                               (''hex'', JStr (bytes_hex resp_data)),
                               (''size'', JInt resp_size)])\<rparr>"
proof -
  from assms(2) have no: "\<not> (resp_type \<in> set [RESP_DSTADDR, RESP_SOCKNAME, RESP_PEERNAME] \<and> 6 \<le> resp_size)"
    by simp
  from assms(2) have hex: "hex_or_truncated resp_size resp_data = bytes_hex resp_data"
    by (simp add: hex_or_truncated_def)
  from assms(1) show ?thesis
    unfolding convert_response_def
    by (simp only: no if_False) (auto simp: resp_consts hex)
qed

lemma convert_response_total:
  assumes "resp_size = int (length resp_data)"
  shows "\<exists>d. convert_response resp_type resp_size resp_data =
               Inr \<lparr>rtype = resp_type, rsize = resp_size, rdata = d\<rparr>"
proof (cases "(resp_type = 2 \<or> resp_type = 3 \<or> resp_type = 4) \<and> 6 \<le> resp_size")
  case True
  let ?p = "parse_sockaddr (drop 4 resp_data) (uint (resp_data ! 4) + 256 * uint (resp_data ! 5))"
  from parse_sockaddr_shape [of "drop 4 resp_data" "uint (resp_data ! 4) + 256 * uint (resp_data ! 5)"]
  consider "?p = Inr None" | name rest where "?p = Inr (Some ((''family'', JStr name) # rest))"
    by blast
  then show ?thesis
  proof cases
    case 1
    with True show ?thesis using convert_response_address_none [OF _ _ assms 1] by simp
  next
    case 2
    with True show ?thesis using convert_response_address_some [OF _ _ assms 2] by simp
  qed
next
  case False
  then have no: "\<not> (resp_type \<in> set [RESP_DSTADDR, RESP_SOCKNAME, RESP_PEERNAME] \<and> 6 \<le> resp_size)"
    using address_class_set [of resp_type] by blast
  obtain text_data where t: "decode_utf8 Ignore resp_data = Inr text_data"
    using decode_utf8_ignore_total by blast
  show ?thesis
    unfolding convert_response_def
    by (simp only: no if_False) (simp add: t)
qed

subsection \<open>The reading loop\<close>

lemma le_value_nonneg: "0 \<le> le_value bs"
  by (induction bs) simp_all

lemma read_record_some:
  assumes "8 \<le> length f" and "nat (le_value (take 4 (drop 4 f))) \<le> length f - 8"
  shows "read_record f =
           Inr (Some (le_value (take 4 f), le_value (take 4 (drop 4 f)),
                      take (nat (le_value (take 4 (drop 4 f)))) (drop 8 f),
                      drop (nat (le_value (take 4 (drop 4 f)))) (drop 8 f)))"
proof -
  let ?s = "le_value (take 4 (drop 4 f))"
  have a: "length (take 4 f) = 4" and b: "length (take 4 (drop 4 f)) = 4"
    using assms(1) by simp_all
  have c: "drop 4 (drop 4 f) = drop 8 f" by simp
  have d: "int (length (take (nat ?s) (drop 8 f))) = ?s"
    using assms(2) le_value_nonneg [of "take 4 (drop 4 f)"] by simp
  have e: "\<not> 0 < ?s \<Longrightarrow> nat ?s = 0" by simp
  show ?thesis
    unfolding read_record_def f_read_def unpack_le_I_def
    by (simp add: a b c d e del: length_take drop_drop)
qed

lemma read_record_none:
  assumes "\<not> (8 \<le> length f \<and> nat (le_value (take 4 (drop 4 f))) \<le> length f - 8)"
  shows "read_record f = Inr None"
proof (cases "length f < 4")
  case True
  then show ?thesis by (simp add: read_record_def f_read_def)
next
  case False
  then have a: "length (take 4 f) = 4" by simp
  show ?thesis
  proof (cases "length f < 8")
    case True
    then have "length (take 4 (drop 4 f)) < 4" by simp
    then show ?thesis
      unfolding read_record_def f_read_def unpack_le_I_def
      by (simp add: a del: length_take)
  next
    case False
    let ?s = "le_value (take 4 (drop 4 f))"
    from False have b: "length (take 4 (drop 4 f)) = 4" by simp
    have c: "drop 4 (drop 4 f) = drop 8 f" by simp
    from False assms have big: "length f - 8 < nat ?s" by simp
    then have pos: "0 < ?s" by simp
    from big have d: "int (length (take (nat ?s) (drop 8 f))) < ?s" by simp
    show ?thesis
      unfolding read_record_def f_read_def unpack_le_I_def
      by (simp add: a b c d pos del: length_take drop_drop)
  qed
qed

lemma convert_loop_none:
  assumes "read_record f = Inr None"
  shows "convert_loop f responses = Inr responses"
  using assms by (subst convert_loop.simps) simp

lemma convert_loop_some:
  assumes "read_record f = Inr (Some (resp_type, resp_size, resp_data, f'))"
    and "convert_response resp_type resp_size resp_data = Inr response"
  shows "convert_loop f responses = convert_loop f' (responses @ [response])"
  using assms by (subst convert_loop.simps) simp


lemma read_record_complete:
  assumes "complete_record f"
  obtains resp_type resp_size resp_data f'
  where "read_record f = Inr (Some (resp_type, resp_size, resp_data, f'))"
    and "resp_size = int (length resp_data)"
    and "length f = 8 + length resp_data + length f'"
    and "\<forall>q. read_record (f @ q) = Inr (Some (resp_type, resp_size, resp_data, f' @ q))"
proof -
  let ?s = "le_value (take 4 (drop 4 f))"
  let ?d = "take (nat ?s) (drop 8 f)"
  let ?f' = "drop (nat ?s) (drop 8 f)"
  from assms have len: "8 \<le> length f" and fit: "nat ?s \<le> length f - 8"
    by (simp_all add: complete_record_def)
  have 1: "read_record f = Inr (Some (le_value (take 4 f), ?s, ?d, ?f'))"
    by (rule read_record_some [OF len fit])
  have 2: "?s = int (length ?d)"
    using fit le_value_nonneg [of "take 4 (drop 4 f)"] by simp
  have 3: "length f = 8 + length ?d + length ?f'"
    using len fit by simp
  have 4: "\<forall>q. read_record (f @ q) = Inr (Some (le_value (take 4 f), ?s, ?d, ?f' @ q))"
  proof
    fix q
    have h: "take 4 (drop 4 (f @ q)) = take 4 (drop 4 f)" using len by simp
    have "read_record (f @ q) =
            Inr (Some (le_value (take 4 (f @ q)), le_value (take 4 (drop 4 (f @ q))),
                       take (nat (le_value (take 4 (drop 4 (f @ q))))) (drop 8 (f @ q)),
                       drop (nat (le_value (take 4 (drop 4 (f @ q))))) (drop 8 (f @ q))))"
      using len fit by (intro read_record_some) (simp_all only: h, simp_all)
    also have "\<dots> = Inr (Some (le_value (take 4 f), ?s, ?d, ?f' @ q))"
      unfolding h using len fit by simp
    finally show "read_record (f @ q) = Inr (Some (le_value (take 4 f), ?s, ?d, ?f' @ q))" .
  qed
  from 1 2 3 4 show thesis by (rule that)
qed

lemma convert_loop_total: "\<exists>rs. convert_loop f acc = Inr (acc @ rs)"
proof (induction f arbitrary: acc rule: length_induct)
  case (1 f)
  show ?case
  proof (cases "complete_record f")
    case False
    then have "read_record f = Inr None"
      by (intro read_record_none) (simp add: complete_record_def)
    then have "convert_loop f acc = Inr (acc @ [])" by (simp add: convert_loop_none)
    then show ?thesis by blast
  next
    case True
    then obtain resp_type resp_size resp_data f'
      where rd: "read_record f = Inr (Some (resp_type, resp_size, resp_data, f'))"
        and sz: "resp_size = int (length resp_data)"
        and ln: "length f = 8 + length resp_data + length f'"
      by (rule read_record_complete)
    from convert_response_total [OF sz] obtain response
      where cr: "convert_response resp_type resp_size resp_data = Inr response" by blast
    from ln have "length f' < length f" by simp
    with 1 obtain rs where "convert_loop f' (acc @ [response]) = Inr ((acc @ [response]) @ rs)"
      by blast
    then have "convert_loop f acc = Inr (acc @ response # rs)"
      by (simp add: convert_loop_some [OF rd cr])
    then show ?thesis by blast
  qed
qed

lemma convert_loop_prefix:
  "\<exists>rs rs'. convert_loop p acc = Inr (acc @ rs) \<and> convert_loop (p @ q) acc = Inr (acc @ rs')
      \<and> prefix rs rs' \<and> consumed rs \<le> length p"
proof (induction p arbitrary: acc rule: length_induct)
  case (1 p)
  show ?case
  proof (cases "complete_record p")
    case False
    then have "read_record p = Inr None"
      by (intro read_record_none) (simp add: complete_record_def)
    then have "convert_loop p acc = Inr (acc @ [])" by (simp add: convert_loop_none)
    moreover obtain rs' where "convert_loop (p @ q) acc = Inr (acc @ rs')"
      using convert_loop_total by blast
    ultimately show ?thesis by (auto simp: consumed_def)
  next
    case True
    then obtain resp_type resp_size resp_data p'
      where rd: "read_record p = Inr (Some (resp_type, resp_size, resp_data, p'))"
        and sz: "resp_size = int (length resp_data)"
        and ln: "length p = 8 + length resp_data + length p'"
        and rdq': "\<forall>q. read_record (p @ q) = Inr (Some (resp_type, resp_size, resp_data, p' @ q))"
      by (rule read_record_complete)
    from rdq' have rdq: "read_record (p @ q) = Inr (Some (resp_type, resp_size, resp_data, p' @ q))"
      by blast
    from convert_response_total [OF sz, of resp_type] obtain d
      where cr: "convert_response resp_type resp_size resp_data =
                   Inr \<lparr>rtype = resp_type, rsize = resp_size, rdata = d\<rparr>" by blast
    let ?r = "\<lparr>rtype = resp_type, rsize = resp_size, rdata = d\<rparr>"
    from ln have "length p' < length p" by simp
    with 1 obtain rs rs'
      where a: "convert_loop p' (acc @ [?r]) = Inr ((acc @ [?r]) @ rs)"
        and b: "convert_loop (p' @ q) (acc @ [?r]) = Inr ((acc @ [?r]) @ rs')"
        and c: "prefix rs rs'" and e: "consumed rs \<le> length p'"
      by blast
    have "convert_loop p acc = Inr (acc @ ?r # rs)"
      using a by (simp add: convert_loop_some [OF rd cr])
    moreover have "convert_loop (p @ q) acc = Inr (acc @ ?r # rs')"
      using b by (simp add: convert_loop_some [OF rdq cr])
    moreover have "prefix (?r # rs) (?r # rs')" using c by simp
    moreover have "consumed (?r # rs) \<le> length p"
      using e ln sz by (simp add: consumed_def)
    ultimately show ?thesis by blast
  qed
qed

section \<open>Properties of the SockAddr decoder\<close>

text \<open>
  Claim C4. With family hint 2 (\<^verbatim>\<open>AF_INET\<close>) and at least 8 bytes, \<^verbatim>\<open>parse_sockaddr\<close>
  returns family \<^verbatim>\<open>AF_INET\<close>, the dotted-decimal text of bytes 4 to 7 as the address and
  the little-endian 16-bit value of bytes 2 and 3 as the port; with fewer than 8 bytes it
  returns \<^verbatim>\<open>None\<close>.
\<close>

theorem parse_sockaddr_af_inet:
  "(8 \<le> length data \<longrightarrow>
      parse_sockaddr data 2 =
        Inr (Some [(''family'', JStr ''AF_INET''),
                   (''address'', JStr (dotted_quad [data ! 4, data ! 5, data ! 6, data ! 7])),
                   (''port'', JInt (uint (data ! 2) + 256 * uint (data ! 3)))]))
   \<and> (length data < 8 \<longrightarrow> parse_sockaddr data 2 = Inr None)"
proof (intro conjI impI)
  assume len: "8 \<le> length data"
  then have "take 2 (drop 2 data) = [data ! 2, data ! 3]"
    using take2_drop [of 2 data] by simp
  moreover from len have "take 4 (drop 4 data) = [data ! 4, data ! 5, data ! 6, data ! 7]"
    using take4_drop [of 4 data] by simp
  ultimately show "parse_sockaddr data 2 =
        Inr (Some [(''family'', JStr ''AF_INET''),
                   (''address'', JStr (dotted_quad [data ! 4, data ! 5, data ! 6, data ! 7])),
                   (''port'', JInt (uint (data ! 2) + 256 * uint (data ! 3)))])"
    using len
    by (simp add: parse_sockaddr_def parse_sockaddr_family_def af_consts bytes_slice_def
        unpack_le_H_def inet_ntoa_def)
next
  assume "length data < 8"
  then show "parse_sockaddr data 2 = Inr None"
    by (simp add: parse_sockaddr_def parse_sockaddr_family_def af_consts)
qed

theorem parse_sockaddr_af_inet_witness:
  "parse_sockaddr [2, 0, 80, 0, 93, 184, 216, 34] 2 =
     Inr (Some [(''family'', JStr ''AF_INET''), (''address'', JStr ''93.184.216.34''),
                (''port'', JInt 80)])
   \<and> parse_sockaddr [2, 0, 80, 0, 93, 184, 216] 2 = Inr None"
  using parse_sockaddr_af_inet [of "[2, 0, 80, 0, 93, 184, 216, 34]"]
        parse_sockaddr_af_inet [of "[2, 0, 80, 0, 93, 184, 216]"]
  by (simp add: dotted_quad_def show_dec_def show_base.simps digit_chars_def)

text \<open>
  Claim C5. With family hint 10 or 28 and at least 24 bytes, \<^verbatim>\<open>parse_sockaddr\<close> returns
  family \<^verbatim>\<open>AF_INET6\<close>, the IPv6 text of bytes 8 to 23 as the address, the little-endian
  value of bytes 2 and 3 as the port and the little-endian 32-bit value of bytes 4 to 7 as
  the flow info; the key \<^verbatim>\<open>scope_id\<close>, with the little-endian 32-bit value of bytes 24
  to 27, is present exactly when the input has at least 28 bytes.
\<close>

theorem parse_sockaddr_af_inet6:
  assumes "family = 10 \<or> family = 28" and "24 \<le> length data"
  shows "parse_sockaddr data family =
           Inr (Some ([(''family'', JStr ''AF_INET6''),
                       (''address'', JStr (ipv6_text (bytes_slice 8 24 data))),
                       (''port'', JInt (uint (data ! 2) + 256 * uint (data ! 3))),
                       (''flowinfo'', JInt (uint (data ! 4) + 256 * uint (data ! 5)
                                            + 65536 * uint (data ! 6) + 16777216 * uint (data ! 7)))]
                      @ (if 28 \<le> length data
                         then [(''scope_id'', JInt (uint (data ! 24) + 256 * uint (data ! 25)
                                            + 65536 * uint (data ! 26) + 16777216 * uint (data ! 27)))]
                         else [])))"
proof -
  from assms have p: "take 2 (drop 2 data) = [data ! 2, data ! 3]"
    using take2_drop [of 2 data] by simp
  from assms have fl: "take 4 (drop 4 data) = [data ! 4, data ! 5, data ! 6, data ! 7]"
    using take4_drop [of 4 data] by simp
  have sc: "28 \<le> length data \<Longrightarrow> take 4 (drop 24 data) = [data ! 24, data ! 25, data ! 26, data ! 27]"
    using take4_drop [of 24 data] by simp
  from assms have fam: "parse_sockaddr data family = parse_sockaddr_family data family"
    by (auto simp: parse_sockaddr_def)
  show ?thesis
    unfolding fam using assms
    by (auto simp: parse_sockaddr_family_def af_consts bytes_slice_def unpack_le_H_def
        unpack_le_I_def inet_ntop6_def p fl sc Let_def)
qed

theorem parse_sockaddr_af_inet6_witness:
  "parse_sockaddr [10, 0, 80, 0, 1, 0, 0, 0,
                   32, 1, 13, 184, 0, 0, 0, 1, 0, 0, 0, 0, 0, 0, 0, 1] 10 =
     Inr (Some [(''family'', JStr ''AF_INET6''), (''address'', JStr ''2001:db8:0:1::1''),
                (''port'', JInt 80), (''flowinfo'', JInt 1)])
   \<and> parse_sockaddr [28, 0, 187, 1, 0, 0, 0, 0,
                     0, 0, 0, 0, 0, 0, 0, 0, 0, 0, 0, 0, 0, 0, 0, 1, 2, 1, 0, 0] 28 =
     Inr (Some [(''family'', JStr ''AF_INET6''), (''address'', JStr ''::1''),
                (''port'', JInt 443), (''flowinfo'', JInt 0), (''scope_id'', JInt 258)])"
  using parse_sockaddr_af_inet6 [of 10 "[10, 0, 80, 0, 1, 0, 0, 0,
                   32, 1, 13, 184, 0, 0, 0, 1, 0, 0, 0, 0, 0, 0, 0, 1]"]
        parse_sockaddr_af_inet6 [of 28 "[28, 0, 187, 1, 0, 0, 0, 0,
                     0, 0, 0, 0, 0, 0, 0, 0, 0, 0, 0, 0, 0, 0, 0, 1, 2, 1, 0, 0]"]
  by (simp add: bytes_slice_def ipv6_text_def format_address_def best_run_def run_step_def
      upt_conv_Cons show_hex_def show_base.simps digit_chars_def)

text \<open>
  Claim C2. With family hint 0 and at least 8 bytes, the port that \<^verbatim>\<open>parse_sockaddr\<close>
  reports is the big-endian reading of bytes 6 and 7 when that is 80, and their
  little-endian reading otherwise. A result is reported whenever at least 12 bytes are
  present.
\<close>

theorem family0_port_choice:
  assumes "8 \<le> length data"
  shows "(\<forall>r. parse_sockaddr data 0 = Inr (Some r) \<longrightarrow>
               map_of r ''port'' = Some (JInt (spec_port_choice data)))
         \<and> (12 \<le> length data \<longrightarrow> (\<exists>r. parse_sockaddr data 0 = Inr (Some r)))"
proof (cases "12 \<le> length data")
  case True
  then show ?thesis by (simp add: parse_sockaddr_0_long)
next
  case False
  with assms show ?thesis by (simp add: parse_sockaddr_0_short)
qed

theorem family0_port_choice_witness:
  "8 \<le> length [0, 0, 0, 0, 0, 0, 0, 80, 1, 2, 3, 4 :: byte]
   \<and> (\<exists>r. parse_sockaddr [0, 0, 0, 0, 0, 0, 0, 80, 1, 2, 3, 4] 0 = Inr (Some r)
          \<and> map_of r ''port'' = Some (JInt 80))
   \<and> (\<exists>r. parse_sockaddr [0, 0, 0, 0, 0, 0, 80, 0, 1, 2, 3, 4] 0 = Inr (Some r)
          \<and> map_of r ''port'' = Some (JInt 80))
   \<and> (\<exists>r. parse_sockaddr [0, 0, 0, 0, 0, 0, 1, 187, 1, 2, 3, 4] 0 = Inr (Some r)
          \<and> map_of r ''port'' = Some (JInt 47873))"
  using family0_port_choice [of "[0, 0, 0, 0, 0, 0, 0, 80, 1, 2, 3, 4]"]
        family0_port_choice [of "[0, 0, 0, 0, 0, 0, 80, 0, 1, 2, 3, 4]"]
        family0_port_choice [of "[0, 0, 0, 0, 0, 0, 1, 187, 1, 2, 3, 4]"]
  by (auto simp: spec_port_choice_def port_be_def port_le_def)

text \<open>
  Claim C6. With family hint 0 and the four bytes at offset 8 all zero,
  \<^verbatim>\<open>parse_sockaddr\<close> reports the address as \<^verbatim>\<open>None\<close>, not as the text
  \<^verbatim>\<open>0.0.0.0\<close>, and still reports the family and the port.
\<close>

theorem family0_zero_address:
  assumes "12 \<le> length data"
    and "data ! 8 = 0" and "data ! 9 = 0" and "data ! 10 = 0" and "data ! 11 = 0"
  shows "parse_sockaddr data 0 =
           Inr (Some [(''family'', JStr ''AF_INET''),
                      (''address'', JNone),
                      (''port'', JInt (spec_port_choice data))])"
  using assms by (simp add: parse_sockaddr_0_long)

theorem family0_zero_address_witness:
  "parse_sockaddr [0, 0, 0, 0, 0, 0, 31, 144, 0, 0, 0, 0] 0 =
     Inr (Some [(''family'', JStr ''AF_INET''), (''address'', JNone), (''port'', JInt 36895)])"
  using family0_zero_address [of "[0, 0, 0, 0, 0, 0, 31, 144, 0, 0, 0, 0]"]
  by (simp add: spec_port_choice_def port_be_def port_le_def)

text \<open>
  Claim C8, as stated: with family hint 0 and at least 8 bytes the heuristic returns a
  decoded IPv4 address. It fails on an input of 8 bytes: the address slice at offset 8 is
  empty, \<^verbatim>\<open>socket.inet_ntoa\<close> raises, the bare \<^verbatim>\<open>except\<close> passes and the function
  returns \<^verbatim>\<open>None\<close>.
\<close>

theorem family0_short_counterexample:
  "8 \<le> length [0, 0, 0, 0, 0, 0, 0, 80 :: byte]
   \<and> parse_sockaddr [0, 0, 0, 0, 0, 0, 0, 80] 0 = Inr None"
  by (simp add: parse_sockaddr_def parse_sockaddr_family_def af_consts bytes_slice_def
      unpack_le_H_def unpack_be_H_def inet_ntoa_def)

text \<open>
  Claim C8, amended. With family hint 0 and at least 12 bytes \<^verbatim>\<open>parse_sockaddr\<close>
  returns an \<^verbatim>\<open>AF_INET\<close> value whose address is read from bytes 8 to 11 (\<^verbatim>\<open>None\<close>
  when they are all zero); with 8 to 11 bytes it returns \<^verbatim>\<open>None\<close>.
\<close>

theorem family0_heuristic:
  "(12 \<le> length data \<longrightarrow>
      parse_sockaddr data 0 =
        Inr (Some [(''family'', JStr ''AF_INET''),
                   (''address'', if data ! 8 = 0 \<and> data ! 9 = 0 \<and> data ! 10 = 0 \<and> data ! 11 = 0
                                 then JNone
                                 else JStr (dotted_quad [data ! 8, data ! 9, data ! 10, data ! 11])),
                   (''port'', JInt (spec_port_choice data))]))
   \<and> (8 \<le> length data \<and> length data < 12 \<longrightarrow> parse_sockaddr data 0 = Inr None)"
  by (simp add: parse_sockaddr_0_long parse_sockaddr_0_short)

theorem family0_heuristic_witness:
  "parse_sockaddr [0, 0, 0, 0, 0, 0, 0, 80, 93, 184, 216, 34] 0 =
     Inr (Some [(''family'', JStr ''AF_INET''), (''address'', JStr ''93.184.216.34''),
                (''port'', JInt 80)])
   \<and> parse_sockaddr [0, 0, 0, 0, 0, 0, 0, 80, 93, 184, 216] 0 = Inr None"
  using family0_heuristic [of "[0, 0, 0, 0, 0, 0, 0, 80, 93, 184, 216, 34]"]
        family0_heuristic [of "[0, 0, 0, 0, 0, 0, 0, 80, 93, 184, 216]"]
  by (simp add: spec_port_choice_def port_be_def port_le_def dotted_quad_def show_dec_def
      show_base.simps digit_chars_def)

section \<open>Properties of the record decoder\<close>

text \<open>
  Claim C1, as stated: for every record whose type is 2, 3 or 4, a SockAddr decoding that
  yields no value leaves the raw fallback (base64 and hex of the payload) as the record's
  data and never another marker. It fails on a record of type 4 and size 5: the bytes from
  offset 4 on decode to \<^verbatim>\<open>None\<close>, but the test \<^verbatim>\<open>resp_size >= 6\<close> of line 143 keeps the
  record out of the address-class branch and line 181 gives the marker
  \<^verbatim>\<open>{"error": true}\<close>; a record of type 3 and size 5 gets the generic dictionary with the
  keys \<^verbatim>\<open>base64\<close>, \<^verbatim>\<open>hex\<close> and \<^verbatim>\<open>size\<close>.
\<close>

theorem address_class_short_counterexample:
  "parse_sockaddr (drop 4 [1, 2, 3, 4, 2]) 2 = Inr None
   \<and> parse_sockaddr (drop 4 [1, 2, 3, 4, 2]) 0 = Inr None
   \<and> convert_response 4 5 [1, 2, 3, 4, 2] =
       Inr \<lparr>rtype = 4, rsize = 5, rdata = [(''error'', JBool True)]\<rparr>
   \<and> convert_response 4 5 [1, 2, 3, 4, 2] \<noteq>
       Inr \<lparr>rtype = 4, rsize = 5,
            rdata = [(''raw_base64'', JStr (b64encode [1, 2, 3, 4, 2])),
                     (''raw_hex'', JStr (bytes_hex [1, 2, 3, 4, 2]))]\<rparr>
   \<and> convert_response 3 5 [1, 2, 3, 4, 2] =
       Inr \<lparr>rtype = 3, rsize = 5,
            rdata = [(''base64'', JStr ''AQIDBAI=''), (''hex'', JStr ''0102030402''),
                     (''size'', JInt 5)]\<rparr>"
proof -
  have a: "parse_sockaddr (drop 4 [1, 2, 3, 4, 2]) 2 = Inr None"
    and b: "parse_sockaddr (drop 4 [1, 2, 3, 4, 2]) 0 = Inr None"
    by (simp_all add: parse_sockaddr_def parse_sockaddr_family_def af_consts)
  have c: "convert_response 4 5 [1, 2, 3, 4, 2] =
       Inr \<lparr>rtype = 4, rsize = 5, rdata = [(''error'', JBool True)]\<rparr>"
    by (simp add: convert_response_def resp_consts)
  have d: "convert_response 3 5 [1, 2, 3, 4, 2] =
       Inr \<lparr>rtype = 3, rsize = 5,
            rdata = [(''base64'', JStr ''AQIDBAI=''), (''hex'', JStr ''0102030402''),
                     (''size'', JInt 5)]\<rparr>"
    by (simp add: convert_response_def resp_consts hex_or_truncated_def b64_chars_def digit_chars_def)
  from a b c d show ?thesis by simp
qed

text \<open>
  Claim C1, amended. For a record of type 2, 3 or 4 the conversion never raises. With size
  at least 6 the record takes the address-class branch, and when \<^verbatim>\<open>parse_sockaddr\<close>
  returns \<^verbatim>\<open>None\<close> its data is the raw fallback: the base64 text and the hex text of the
  whole payload, and nothing else. With size below 6 the decoder is not called: type 4
  yields the marker \<^verbatim>\<open>{"error": true}\<close>, types 2 and 3 yield the generic dictionary with
  the keys \<^verbatim>\<open>base64\<close>, \<^verbatim>\<open>hex\<close> and \<^verbatim>\<open>size\<close>.
\<close>

theorem address_class_fallback:
  assumes "resp_type = 2 \<or> resp_type = 3 \<or> resp_type = 4"
    and "resp_size = int (length resp_data)"
  shows "(6 \<le> resp_size \<longrightarrow>
            (\<exists>d. convert_response resp_type resp_size resp_data =
                    Inr \<lparr>rtype = resp_type, rsize = resp_size, rdata = d\<rparr>
                \<and> (parse_sockaddr (drop 4 resp_data)
                      (uint (resp_data ! 4) + 256 * uint (resp_data ! 5)) = Inr None
                    \<longrightarrow> d = [(''raw_base64'', JStr (b64encode resp_data)),
                             (''raw_hex'', JStr (bytes_hex resp_data))])))
         \<and> (resp_size < 6 \<longrightarrow>
              convert_response resp_type resp_size resp_data =
                Inr \<lparr>rtype = resp_type, rsize = resp_size,
                     rdata = (if resp_type = 4 then [(''error'', JBool True)]
                              else [(''base64'', JStr (b64encode resp_data)),
                                    (''hex'', JStr (bytes_hex resp_data)),
                                    (''size'', JInt resp_size)])\<rparr>)"
proof (intro conjI impI)
  assume size: "6 \<le> resp_size"
  let ?p = "parse_sockaddr (drop 4 resp_data) (uint (resp_data ! 4) + 256 * uint (resp_data ! 5))"
  from parse_sockaddr_shape [of "drop 4 resp_data" "uint (resp_data ! 4) + 256 * uint (resp_data ! 5)"]
  consider "?p = Inr None" | name rest where "?p = Inr (Some ((''family'', JStr name) # rest))"
    by blast
  then show "\<exists>d. convert_response resp_type resp_size resp_data =
                    Inr \<lparr>rtype = resp_type, rsize = resp_size, rdata = d\<rparr>
                \<and> (?p = Inr None
                    \<longrightarrow> d = [(''raw_base64'', JStr (b64encode resp_data)),
                             (''raw_hex'', JStr (bytes_hex resp_data))])"
  proof cases
    case 1
    then show ?thesis using convert_response_address_none [OF assms(1) size assms(2) 1] by simp
  next
    case 2
    then show ?thesis using convert_response_address_some [OF assms(1) size assms(2) 2] by simp
  qed
next
  assume "resp_size < 6"
  then show "convert_response resp_type resp_size resp_data =
                Inr \<lparr>rtype = resp_type, rsize = resp_size,
                     rdata = (if resp_type = 4 then [(''error'', JBool True)]
                              else [(''base64'', JStr (b64encode resp_data)),
                                    (''hex'', JStr (bytes_hex resp_data)),
                                    (''size'', JInt resp_size)])\<rparr>"
    by (rule convert_response_short [OF assms(1)])
qed

theorem address_class_fallback_witness:
  "convert_response 2 12 [1, 2, 3, 4, 7, 0, 0, 80, 10, 0, 0, 1] =
     Inr \<lparr>rtype = 2, rsize = 12,
          rdata = [(''raw_base64'', JStr ''AQIDBAcAAFAKAAAB''),
                   (''raw_hex'', JStr ''01020304070000500a000001'')]\<rparr>
   \<and> convert_response 2 5 [1, 2, 3, 4, 2] =
     Inr \<lparr>rtype = 2, rsize = 5,
          rdata = [(''base64'', JStr ''AQIDBAI=''), (''hex'', JStr ''0102030402''),
                   (''size'', JInt 5)]\<rparr>
   \<and> convert_response 4 5 [1, 2, 3, 4, 2] =
     Inr \<lparr>rtype = 4, rsize = 5, rdata = [(''error'', JBool True)]\<rparr>"
proof -
  let ?data = "[1, 2, 3, 4, 7, 0, 0, 80, 10, 0, 0, 1] :: byte list"
  let ?short = "[1, 2, 3, 4, 2] :: byte list"
  have none: "parse_sockaddr (drop 4 ?data) (uint (?data ! 4) + 256 * uint (?data ! 5)) = Inr None"
    by (simp add: parse_sockaddr_def parse_sockaddr_family_def af_consts)
  have t2: "(2::int) = 2 \<or> (2::int) = 3 \<or> (2::int) = 4"
    and t4: "(4::int) = 2 \<or> (4::int) = 3 \<or> (4::int) = 4" by simp_all
  have twelve: "12 = int (length ?data)" and five: "5 = int (length ?short)" by simp_all
  from address_class_fallback [OF t2 twelve] none
  have a: "convert_response 2 12 ?data =
      Inr \<lparr>rtype = 2, rsize = 12,
           rdata = [(''raw_base64'', JStr (b64encode ?data)), (''raw_hex'', JStr (bytes_hex ?data))]\<rparr>"
    by auto
  from address_class_fallback [OF t2 five]
  have b: "convert_response 2 5 ?short =
      Inr \<lparr>rtype = 2, rsize = 5,
           rdata = [(''base64'', JStr (b64encode ?short)), (''hex'', JStr (bytes_hex ?short)),
                    (''size'', JInt 5)]\<rparr>"
    by simp
  from address_class_fallback [OF t4 five]
  have c: "convert_response 4 5 ?short =
      Inr \<lparr>rtype = 4, rsize = 5, rdata = [(''error'', JBool True)]\<rparr>"
    by simp
  from a b c show ?thesis by (simp add: b64_chars_def digit_chars_def)
qed

text \<open>
  Claim C10. Type code 4 is both \<^verbatim>\<open>RESP_PEERNAME\<close> and \<^verbatim>\<open>RESP_READ_ERROR\<close>. A
  record of type 4 and size at least 6 takes the address-class branch: its data is what
  \<^verbatim>\<open>parse_sockaddr\<close> returned, or the raw fallback, and never the read-error marker. A
  record of type 4 and size below 6 yields exactly the marker \<^verbatim>\<open>{"error": true}\<close>.
\<close>

theorem peername_or_read_error:
  assumes "resp_size = int (length resp_data)"
  shows "(6 \<le> resp_size \<longrightarrow>
            (\<exists>d. convert_response 4 resp_size resp_data =
                    Inr \<lparr>rtype = 4, rsize = resp_size, rdata = d\<rparr>
                \<and> d \<noteq> [(''error'', JBool True)]
                \<and> (\<exists>r. parse_sockaddr (drop 4 resp_data)
                            (uint (resp_data ! 4) + 256 * uint (resp_data ! 5)) = Inr r
                        \<and> d = (case r of
                                  Some sockaddr_data \<Rightarrow> sockaddr_data
                                | None \<Rightarrow> [(''raw_base64'', JStr (b64encode resp_data)),
                                            (''raw_hex'', JStr (bytes_hex resp_data))]))))
         \<and> (resp_size < 6 \<longrightarrow>
              convert_response 4 resp_size resp_data =
                Inr \<lparr>rtype = 4, rsize = resp_size, rdata = [(''error'', JBool True)]\<rparr>)"
proof (intro conjI impI)
  assume size: "6 \<le> resp_size"
  let ?p = "parse_sockaddr (drop 4 resp_data) (uint (resp_data ! 4) + 256 * uint (resp_data ! 5))"
  have ty: "(4::int) = 2 \<or> (4::int) = 3 \<or> (4::int) = 4" by simp
  from parse_sockaddr_shape [of "drop 4 resp_data" "uint (resp_data ! 4) + 256 * uint (resp_data ! 5)"]
  consider "?p = Inr None" | name rest where "?p = Inr (Some ((''family'', JStr name) # rest))"
    by blast
  then show "\<exists>d. convert_response 4 resp_size resp_data =
                    Inr \<lparr>rtype = 4, rsize = resp_size, rdata = d\<rparr>
                \<and> d \<noteq> [(''error'', JBool True)]
                \<and> (\<exists>r. ?p = Inr r
                        \<and> d = (case r of
                                  Some sockaddr_data \<Rightarrow> sockaddr_data
                                | None \<Rightarrow> [(''raw_base64'', JStr (b64encode resp_data)),
                                            (''raw_hex'', JStr (bytes_hex resp_data))]))"
  proof cases
    case 1
    then show ?thesis using convert_response_address_none [OF ty size assms 1] by simp
  next
    case 2
    then show ?thesis using convert_response_address_some [OF ty size assms 2] by simp
  qed
next
  assume "resp_size < 6"
  then show "convert_response 4 resp_size resp_data =
                Inr \<lparr>rtype = 4, rsize = resp_size, rdata = [(''error'', JBool True)]\<rparr>"
    by (simp add: convert_response_def resp_consts)
qed

theorem peername_or_read_error_witness:
  "convert_response 4 6 [1, 2, 3, 4, 2, 0] =
     Inr \<lparr>rtype = 4, rsize = 6,
          rdata = [(''raw_base64'', JStr ''AQIDBAIA''), (''raw_hex'', JStr ''010203040200'')]\<rparr>
   \<and> convert_response 4 5 [1, 2, 3, 4, 2] =
     Inr \<lparr>rtype = 4, rsize = 5, rdata = [(''error'', JBool True)]\<rparr>"
proof -
  let ?data = "[1, 2, 3, 4, 2, 0] :: byte list"
  have none: "parse_sockaddr (drop 4 ?data) (uint (?data ! 4) + 256 * uint (?data ! 5)) = Inr None"
    by (simp add: parse_sockaddr_def parse_sockaddr_family_def af_consts)
  have six: "6 = int (length ?data)" and five: "5 = int (length [1, 2, 3, 4, 2 :: byte])"
    by simp_all
  from peername_or_read_error [OF six] none
  have "convert_response 4 6 ?data =
      Inr \<lparr>rtype = 4, rsize = 6,
           rdata = [(''raw_base64'', JStr (b64encode ?data)), (''raw_hex'', JStr (bytes_hex ?data))]\<rparr>"
    by auto
  moreover from peername_or_read_error [OF five]
  have "convert_response 4 5 [1, 2, 3, 4, 2] =
      Inr \<lparr>rtype = 4, rsize = 5, rdata = [(''error'', JBool True)]\<rparr>"
    by simp
  ultimately show ?thesis by (simp add: b64_chars_def digit_chars_def)
qed

text \<open>
  Claim C7. For a record of packet type the \<^verbatim>\<open>base64\<close> field encodes the whole payload
  and decodes back to it. With at most 100 payload bytes the \<^verbatim>\<open>hex\<close> field is the hex
  text of the payload, which is also the hex text of the decoded \<^verbatim>\<open>base64\<close> field; with
  more than 100 bytes it is the 200 hex characters of the first 100 bytes followed by the
  marker \<^verbatim>\<open>...\<close>.
\<close>

theorem packet_record:
  assumes "resp_size = int (length resp_data)"
  shows "\<exists>hex. convert_response 1 resp_size resp_data =
                   Inr \<lparr>rtype = 1, rsize = resp_size,
                        rdata = [(''size'', JInt resp_size),
                                 (''base64'', JStr (b64encode resp_data)),
                                 (''hex'', JStr hex)]\<rparr>
               \<and> b64decode (b64encode resp_data) = resp_data
               \<and> (length resp_data \<le> 100 \<longrightarrow>
                     hex = bytes_hex resp_data
                     \<and> hex = bytes_hex (b64decode (b64encode resp_data)))
               \<and> (100 < length resp_data \<longrightarrow>
                     hex = bytes_hex (take 100 resp_data) @ ''...''
                     \<and> length (bytes_hex (take 100 resp_data)) = 200)"
proof -
  have "convert_response 1 resp_size resp_data =
          Inr \<lparr>rtype = 1, rsize = resp_size,
               rdata = [(''size'', JInt resp_size),
                        (''base64'', JStr (b64encode resp_data)),
                        (''hex'', JStr (hex_or_truncated resp_size resp_data))]\<rparr>"
    by (simp add: convert_response_def resp_consts)
  moreover have "length resp_data \<le> 100 \<Longrightarrow>
                   hex_or_truncated resp_size resp_data = bytes_hex resp_data"
    using assms by (simp add: hex_or_truncated_def)
  moreover have "100 < length resp_data \<Longrightarrow>
                   hex_or_truncated resp_size resp_data = bytes_hex (take 100 resp_data) @ ''...''"
    using assms by (simp add: hex_or_truncated_def bytes_slice_def)
  moreover have "100 < length resp_data \<Longrightarrow> length (bytes_hex (take 100 resp_data)) = 200"
    by (simp add: length_bytes_hex)
  ultimately show ?thesis
    by (simp add: b64decode_b64encode)
qed

theorem packet_record_witness:
  "convert_response 1 5 [222, 173, 190, 239, 1] =
     Inr \<lparr>rtype = 1, rsize = 5,
          rdata = [(''size'', JInt 5), (''base64'', JStr ''3q2+7wE=''),
                   (''hex'', JStr ''deadbeef01'')]\<rparr>
   \<and> b64decode ''3q2+7wE='' = [222, 173, 190, 239, 1]
   \<and> (\<exists>hex. convert_response 1 101 (replicate 101 7) =
          Inr \<lparr>rtype = 1, rsize = 101,
               rdata = [(''size'', JInt 101), (''base64'', JStr (b64encode (replicate 101 7))),
                        (''hex'', JStr hex)]\<rparr>
        \<and> hex = bytes_hex (replicate 100 7) @ ''...'' \<and> length hex = 203)"
proof -
  have five: "5 = int (length [222, 173, 190, 239, 1 :: byte])" by simp
  have big: "101 = int (length (replicate 101 (7 :: byte)))" by simp
  have enc: "b64encode [222, 173, 190, 239, 1] = ''3q2+7wE=''"
    by (simp add: b64_chars_def)
  have hex: "bytes_hex [222, 173, 190, 239, 1] = ''deadbeef01''"
    by (simp add: digit_chars_def)
  from packet_record [OF five]
  have "convert_response 1 5 [222, 173, 190, 239, 1] =
     Inr \<lparr>rtype = 1, rsize = 5,
          rdata = [(''size'', JInt 5), (''base64'', JStr ''3q2+7wE=''),
                   (''hex'', JStr ''deadbeef01'')]\<rparr>
     \<and> b64decode ''3q2+7wE='' = [222, 173, 190, 239, 1]"
    unfolding enc hex by auto
  moreover from packet_record [OF big]
  have "\<exists>hex. convert_response 1 101 (replicate 101 7) =
          Inr \<lparr>rtype = 1, rsize = 101,
               rdata = [(''size'', JInt 101), (''base64'', JStr (b64encode (replicate 101 7))),
                        (''hex'', JStr hex)]\<rparr>
        \<and> hex = bytes_hex (replicate 100 7) @ ''...'' \<and> length hex = 203"
    by (auto simp: length_bytes_hex)
  ultimately show ?thesis by simp
qed

text \<open>
  Claim C9. For a generic-data record the permissive UTF-8 decoding never raises, for any
  payload, so the record's data always has the keys \<^verbatim>\<open>text\<close>, \<^verbatim>\<open>size\<close> and
  \<^verbatim>\<open>base64\<close>; the fallback dictionary of the \<^verbatim>\<open>except\<close> branch is never produced.
\<close>

theorem generic_data_record:
  "\<exists>text_data. decode_utf8 Ignore resp_data = Inr text_data
      \<and> convert_response 7 resp_size resp_data =
          Inr \<lparr>rtype = 7, rsize = resp_size,
               rdata = [(''text'', JText text_data),
                        (''size'', JInt resp_size),
                        (''base64'', JStr (b64encode resp_data))]\<rparr>
      \<and> convert_response 7 resp_size resp_data \<noteq>
          Inr \<lparr>rtype = 7, rsize = resp_size,
               rdata = [(''base64'', JStr (b64encode resp_data)),
                        (''hex'', JStr (hex_or_truncated resp_size resp_data)),
                        (''size'', JInt resp_size)]\<rparr>"
proof -
  obtain text_data where t: "decode_utf8 Ignore resp_data = Inr text_data"
    using decode_utf8_ignore_total by blast
  then have "convert_response 7 resp_size resp_data =
          Inr \<lparr>rtype = 7, rsize = resp_size,
               rdata = [(''text'', JText text_data),
                        (''size'', JInt resp_size),
                        (''base64'', JStr (b64encode resp_data))]\<rparr>"
    by (simp add: convert_response_def resp_consts)
  with t show ?thesis by simp
qed

section \<open>Properties of the record stream reader\<close>

text \<open>
  Claim C3. Reading a file cut off after \<open>k\<close> bytes never raises, and for \<open>k \<le> k'\<close> the
  records read from the first \<open>k\<close> bytes are a prefix of the records read from the first
  \<open>k'\<close> bytes. Every emitted record was read in full: the headers and payloads of the
  emitted records fit into the bytes that were available, so a header or payload that the
  cut interrupts is dropped.
\<close>

theorem truncation_prefix:
  assumes "k \<le> k'"
  shows "\<exists>rs rs'. read_responses (take k content) = Inr rs
           \<and> read_responses (take k' content) = Inr rs'
           \<and> prefix rs rs'
           \<and> consumed rs \<le> length (take k content)"
proof -
  from assms have "take k' content = take k content @ drop k (take k' content)"
    by (metis append_take_drop_id min.absorb1 take_take)
  then show ?thesis
    using convert_loop_prefix [of "take k content" "[]" "drop k (take k' content)"]
    by (simp add: read_responses_def)
qed

theorem truncation_prefix_witness:
  "(27::nat) \<le> 28
   \<and> (\<exists>rs rs'. read_responses (take 27 [3, 0, 0, 0, 12, 0, 0, 0, 1, 2, 3, 4, 2, 0, 80, 0, 93, 184, 216, 34,
                                          9, 0, 0, 0, 0, 0, 0, 0]) = Inr rs
         \<and> read_responses (take 28 [3, 0, 0, 0, 12, 0, 0, 0, 1, 2, 3, 4, 2, 0, 80, 0, 93, 184, 216, 34,
                                     9, 0, 0, 0, 0, 0, 0, 0]) = Inr rs'
         \<and> prefix rs rs'
         \<and> consumed rs \<le> length (take 27 [3, 0, 0, 0, 12, 0, 0, 0, 1, 2, 3, 4, 2, 0, 80, 0, 93, 184, 216, 34,
                                            9, 0, 0, 0, 0, 0, 0, 0 :: byte]))
   \<and> read_responses (take 27 [3, 0, 0, 0, 12, 0, 0, 0, 1, 2, 3, 4, 2, 0, 80, 0, 93, 184, 216, 34,
                               9, 0, 0, 0, 0, 0, 0, 0]) =
       Inr [\<lparr>rtype = 3, rsize = 12,
             rdata = [(''family'', JStr ''AF_INET''), (''address'', JStr ''93.184.216.34''),
                      (''port'', JInt 80)]\<rparr>]
   \<and> read_responses (take 28 [3, 0, 0, 0, 12, 0, 0, 0, 1, 2, 3, 4, 2, 0, 80, 0, 93, 184, 216, 34,
                               9, 0, 0, 0, 0, 0, 0, 0]) =
       Inr [\<lparr>rtype = 3, rsize = 12,
             rdata = [(''family'', JStr ''AF_INET''), (''address'', JStr ''93.184.216.34''),
                      (''port'', JInt 80)]\<rparr>,
            \<lparr>rtype = 9, rsize = 0, rdata = [(''timeout'', JBool True)]\<rparr>]"
proof -
  let ?content = "[3, 0, 0, 0, 12, 0, 0, 0, 1, 2, 3, 4, 2, 0, 80, 0, 93, 184, 216, 34,
                   9, 0, 0, 0, 0, 0, 0, 0] :: byte list"
  note ev = read_responses_def convert_loop.simps read_record_def f_read_def unpack_le_I_def
    unpack_le_H_def convert_response_def resp_consts af_consts truthy_def parse_sockaddr_def
    parse_sockaddr_family_def bytes_slice_def inet_ntoa_def dotted_quad_def show_dec_def
    show_base.simps digit_chars_def
  have le: "(27::nat) \<le> 28" by simp
  have a: "read_responses (take 27 ?content) =
       Inr [\<lparr>rtype = 3, rsize = 12,
             rdata = [(''family'', JStr ''AF_INET''), (''address'', JStr ''93.184.216.34''),
                      (''port'', JInt 80)]\<rparr>]"
    by (simp add: ev)
  have b: "read_responses (take 28 ?content) =
       Inr [\<lparr>rtype = 3, rsize = 12,
             rdata = [(''family'', JStr ''AF_INET''), (''address'', JStr ''93.184.216.34''),
                      (''port'', JInt 80)]\<rparr>,
            \<lparr>rtype = 9, rsize = 0, rdata = [(''timeout'', JBool True)]\<rparr>]"
    by (simp add: ev)
  from le truncation_prefix [OF le, of ?content] a b show ?thesis by blast
qed

end
